theory Spec2Isabelle
  imports Main
begin

section \<open>The simulation engine of GameOfLife.js\<close>

text \<open>
  The engine is the constructor function \<open>Grid(width, height)\<close> of
  \<^verbatim>\<open>src/js/GameOfLife.js\<close> with its methods, together with the lookup table
  built by \<open>initCellLookup\<close>. Rows, columns, widths and heights are modelled as
  integers. A JavaScript array is an object whose properties are keyed by integers, so
  each array of the engine is a map from \<open>int\<close>: reading a key that was never written
  gives \<open>undefined\<close> (\<open>None\<close>), and writing a negative key stores a property
  without touching the elements.
\<close>

subsection \<open>JavaScript numbers and reads\<close>

text \<open>
  A value read from an array is a number or \<open>undefined\<close> (\<open>int option\<close>).
  Arithmetic converts \<open>undefined\<close> to \<open>NaN\<close>, which absorbs every sum and
  product and fails every comparison.
\<close>

datatype jsnum = Num int | NaN

datatype error = TypeError

fun to_number :: "int option \<Rightarrow> jsnum" where
  "to_number (Some n) = Num n"
| "to_number None = NaN"

fun js_add :: "jsnum \<Rightarrow> jsnum \<Rightarrow> jsnum" where
  "js_add (Num a) (Num b) = Num (a + b)"
| "js_add _ _ = NaN"

fun js_mul :: "jsnum \<Rightarrow> jsnum \<Rightarrow> jsnum" where
  "js_mul (Num a) (Num b) = Num (a * b)"
| "js_mul _ _ = NaN"

fun js_lt :: "jsnum \<Rightarrow> int \<Rightarrow> bool" where
  "js_lt (Num a) b = (a < b)"
| "js_lt NaN b = False"

fun js_gt :: "jsnum \<Rightarrow> int \<Rightarrow> bool" where
  "js_gt (Num a) b = (a > b)"
| "js_gt NaN b = False"

fun js_eq :: "jsnum \<Rightarrow> int \<Rightarrow> bool" where
  "js_eq (Num a) b = (a = b)"
| "js_eq NaN b = False"

definition js_index :: "int list \<Rightarrow> int \<Rightarrow> int option" where
  "js_index xs i = (if 0 \<le> i \<and> i < int (length xs) then Some (xs ! nat i) else None)"

definition buf_get :: "(int \<rightharpoonup> int) \<Rightarrow> jsnum \<Rightarrow> int option" where
  "buf_get b idx = (case idx of Num k \<Rightarrow> b k | NaN \<Rightarrow> None)"

subsection \<open>Constants and the lookup table\<close>

definition DEAD_CELL :: int where
  "DEAD_CELL = 0"

definition LIVE_CELL :: int where
  "LIVE_CELL = 1"

datatype cell_kind =
  TOP_LEFT | TOP_RIGHT | BOTTOM_LEFT | BOTTOM_RIGHT | TOP | BOTTOM | LEFT | RIGHT | CENTER

record CellType =
  numNeighbors :: int
  cellValues :: "int list"

text \<open>\<open>initCellLookup\<close>: each table is a flat array of (column, row) offset pairs.\<close>

fun cellLookup :: "cell_kind \<Rightarrow> CellType" where
  "cellLookup TOP_LEFT = \<lparr>numNeighbors = 3, cellValues = [1, 0, 1, 1, 0, 1]\<rparr>"
| "cellLookup TOP_RIGHT = \<lparr>numNeighbors = 3, cellValues = [-1, 0, -1, 1, 0, 1]\<rparr>"
| "cellLookup BOTTOM_LEFT = \<lparr>numNeighbors = 3, cellValues = [1, 0, 1, -1, 0, -1]\<rparr>"
| "cellLookup BOTTOM_RIGHT = \<lparr>numNeighbors = 3, cellValues = [-1, 0, -1, -1, 0, -1]\<rparr>"
| "cellLookup TOP = \<lparr>numNeighbors = 5, cellValues = [-1, 0, -1, 1, 0, 1, 1, 1, 1, 0]\<rparr>"
| "cellLookup BOTTOM = \<lparr>numNeighbors = 5, cellValues = [-1, 0, -1, -1, 0, -1, 1, -1, 1, 0]\<rparr>"
| "cellLookup LEFT = \<lparr>numNeighbors = 5, cellValues = [0, -1, 1, -1, 1, 0, 1, 1, 0, 1]\<rparr>"
| "cellLookup RIGHT = \<lparr>numNeighbors = 5, cellValues = [0, -1, -1, -1, -1, 0, -1, 1, 0, 1]\<rparr>"
| "cellLookup CENTER =
     \<lparr>numNeighbors = 8,
      cellValues = [-1, -1, -1, 0, -1, 1, 0, 1, 1, 1, 1, 0, 1, -1, 0, -1]\<rparr>"

subsection \<open>The grid object\<close>

text \<open>
  The fields of the object. The constructor's parameters \<open>width\<close> and \<open>height\<close>
  are captured by the methods and copied to \<open>this.width\<close> and \<open>this.height\<close>;
  nothing reassigns either, so one field stands for both. \<open>next_cells\<close> is the
  field \<open>this.next\<close> and \<open>num_cells\<close> is \<open>this._num_cells\<close>.
\<close>

record grid =
  cells :: "int \<rightharpoonup> int"
  next_cells :: "int \<rightharpoonup> int"
  width :: int
  height :: int
  newborns :: "int \<rightharpoonup> int list"
  cell_types :: "int \<rightharpoonup> cell_kind"
  num_cells :: int

text \<open>\<open>_getCellType\<close>, with the comparisons in the order of the source.\<close>

definition getCellType :: "int \<Rightarrow> int \<Rightarrow> int \<Rightarrow> int \<Rightarrow> cell_kind" where
  "getCellType w h row col =
     (if row = 0 \<and> col = 0 then TOP_LEFT
      else if row = 0 \<and> col = w - 1 then TOP_RIGHT
      else if row = h - 1 \<and> col = 0 then BOTTOM_LEFT
      else if row = h - 1 \<and> col = h - 1 then BOTTOM_RIGHT
      else if row = 0 then TOP
      else if col = 0 then LEFT
      else if row = h - 1 then RIGHT
      else if col = w - 1 then BOTTOM
      else CENTER)"

text \<open>The constructor's nested loop over rows \<open>i\<close> and columns \<open>j\<close>.\<close>

function init_cols :: "int \<Rightarrow> int \<Rightarrow> int \<Rightarrow> int \<Rightarrow> grid \<Rightarrow> grid" where
  "init_cols w h i j g =
     (if j < w then
        let index = i * w + j in
        init_cols w h i (j + 1)
          (g\<lparr>cells := (cells g)(index \<mapsto> DEAD_CELL),
             next_cells := (next_cells g)(index \<mapsto> DEAD_CELL),
             cell_types := (cell_types g)(index \<mapsto> getCellType w h i j)\<rparr>)
      else g)"
  by pat_completeness auto
termination
  by (relation "measure (\<lambda>(w, h, i, j, g). nat (w - j))") auto

function init_rows :: "int \<Rightarrow> int \<Rightarrow> int \<Rightarrow> grid \<Rightarrow> grid" where
  "init_rows w h i g =
     (if i < h then init_rows w h (i + 1) (init_cols w h i 0 g) else g)"
  by pat_completeness auto
termination
  by (relation "measure (\<lambda>(w, h, i, g). nat (h - i))") auto

definition Grid :: "int \<Rightarrow> int \<Rightarrow> grid" where
  "Grid w h =
     init_rows w h 0
       \<lparr>cells = Map.empty, next_cells = Map.empty, width = w, height = h,
        newborns = Map.empty, cell_types = Map.empty, num_cells = w * h - 1\<rparr>"

definition isValidCell :: "grid \<Rightarrow> int \<Rightarrow> int \<Rightarrow> bool" where
  "isValidCell g row col \<longleftrightarrow> col < width g \<and> row * width g + col < num_cells g"

definition setCell :: "grid \<Rightarrow> int \<Rightarrow> int \<Rightarrow> int \<Rightarrow> grid" where
  "setCell g row col v =
     (if isValidCell g row col then g\<lparr>cells := (cells g)(row * width g + col \<mapsto> v)\<rparr>
      else g)"

definition getCell :: "grid \<Rightarrow> int \<Rightarrow> int \<Rightarrow> int option" where
  "getCell g row col =
     (if isValidCell g row col then cells g (row * width g + col) else Some (- 1))"

definition determineCellType :: "grid \<Rightarrow> int \<Rightarrow> int \<Rightarrow> cell_kind option" where
  "determineCellType g row col = cell_types g (row * width g + col)"

text \<open>The loop of \<open>calcLivingNeighbors\<close> over the flat offset array.\<close>

function count_loop :: "grid \<Rightarrow> int \<Rightarrow> int \<Rightarrow> CellType \<Rightarrow> int \<Rightarrow> jsnum \<Rightarrow> jsnum" where
  "count_loop g row col cellsToCheck counter numLivingNeighbors =
     (if counter < numNeighbors cellsToCheck * 2 then
        let neighborCol =
              js_add (Num col) (to_number (js_index (cellValues cellsToCheck) counter));
            neighborRow =
              js_add (Num row) (to_number (js_index (cellValues cellsToCheck) (counter + 1)));
            index = js_add (js_mul neighborRow (Num (width g))) neighborCol;
            neighborValue = buf_get (cells g) index
        in count_loop g row col cellsToCheck (counter + 2)
             (js_add numLivingNeighbors (to_number neighborValue))
      else numLivingNeighbors)"
  by pat_completeness auto
termination
  by (relation "measure (\<lambda>(g, row, col, ct, counter, n). nat (numNeighbors ct * 2 - counter))")
    auto

text \<open>
  \<open>calcLivingNeighbors\<close>: a position without an entry in \<open>cell_types\<close> makes
  \<open>cellLookup[cellType]\<close> undefined, and reading its \<open>cellValues\<close> throws.
\<close>

definition calcLivingNeighbors :: "grid \<Rightarrow> int \<Rightarrow> int \<Rightarrow> error + jsnum" where
  "calcLivingNeighbors g row col =
     (case determineCellType g row col of
        None \<Rightarrow> Inl TypeError
      | Some cellType \<Rightarrow> Inr (count_loop g row col (cellLookup cellType) 0 (Num 0)))"

text \<open>The body of the inner loop of \<open>update\<close> for the cell at row \<open>i\<close>, column \<open>j\<close>.\<close>

definition update_cell :: "grid \<Rightarrow> int \<Rightarrow> int \<Rightarrow> error + grid" where
  "update_cell g i j =
     (case calcLivingNeighbors g i j of
        Inl e \<Rightarrow> Inl e
      | Inr numLivingNeighbors \<Rightarrow>
          let testCell = getCell g i j in
          if testCell = Some LIVE_CELL then
            if js_lt numLivingNeighbors 2 \<or> js_gt numLivingNeighbors 3 then
              Inr (g\<lparr>next_cells := (next_cells g)(i * width g + j \<mapsto> DEAD_CELL)\<rparr>)
            else
              Inr (g\<lparr>next_cells := (next_cells g)(i * width g + j \<mapsto> LIVE_CELL)\<rparr>)
          else if js_eq numLivingNeighbors 3 then
            (case newborns g i of
               None \<Rightarrow> Inl TypeError
             | Some r \<Rightarrow>
                 Inr (g\<lparr>next_cells := (next_cells g)(i * width g + j \<mapsto> LIVE_CELL),
                        newborns := (newborns g)(i \<mapsto> r @ [j])\<rparr>))
          else
            Inr (g\<lparr>next_cells := (next_cells g)(i * width g + j \<mapsto> DEAD_CELL)\<rparr>))"

function update_cols :: "int \<Rightarrow> int \<Rightarrow> int \<Rightarrow> grid \<Rightarrow> error + grid" where
  "update_cols w i j g =
     (if j < w then
        (case update_cell g i j of
           Inl e \<Rightarrow> Inl e
         | Inr g' \<Rightarrow> update_cols w i (j + 1) g')
      else Inr g)"
  by pat_completeness auto
termination
  by (relation "measure (\<lambda>(w, i, j, g). nat (w - j))") auto

function update_rows :: "int \<Rightarrow> int \<Rightarrow> int \<Rightarrow> grid \<Rightarrow> error + grid" where
  "update_rows w h i g =
     (if i < h then
        (case update_cols w i 0 (g\<lparr>newborns := (newborns g)(i \<mapsto> [])\<rparr>) of
           Inl e \<Rightarrow> Inl e
         | Inr g' \<Rightarrow> update_rows w h (i + 1) g')
      else Inr g)"
  by pat_completeness auto
termination
  by (relation "measure (\<lambda>(w, h, i, g). nat (h - i))") auto

text \<open>\<open>update\<close>: the pass over all cells, then the exchange of the two buffers.\<close>

definition update :: "grid \<Rightarrow> error + grid" where
  "update g =
     (case update_rows (width g) (height g) 0 (g\<lparr>newborns := Map.empty\<rparr>) of
        Inl e \<Rightarrow> Inl e
      | Inr g' \<Rightarrow> Inr (g'\<lparr>cells := next_cells g', next_cells := cells g'\<rparr>))"

section \<open>Notions used to state the properties\<close>

text \<open>
  The definitions of this section are not part of the program. They name what the
  properties speak about; every one that describes the program's behaviour is connected
  to the embedding above by a lemma (\<open>update_result\<close>, \<open>living_regions\<close>,
  \<open>is_grid_invariant\<close>).
\<close>

text \<open>A position within \<open>[0, height) \<times> [0, width)\<close>.\<close>

definition in_grid :: "grid \<Rightarrow> int \<Rightarrow> int \<Rightarrow> bool" where
  "in_grid g row col \<longleftrightarrow> 0 \<le> row \<and> row < height g \<and> 0 \<le> col \<and> col < width g"

text \<open>
  The value that the body of \<open>update\<close> stores in the next buffer, and whether it
  records the column as newborn, as functions of the tested cell and the count.
\<close>

definition rule_value :: "int option \<Rightarrow> jsnum \<Rightarrow> int" where
  "rule_value testCell n =
     (if testCell = Some LIVE_CELL then
        if js_lt n 2 \<or> js_gt n 3 then DEAD_CELL else LIVE_CELL
      else if js_eq n 3 then LIVE_CELL
      else DEAD_CELL)"

definition is_born :: "int option \<Rightarrow> jsnum \<Rightarrow> bool" where
  "is_born testCell n \<longleftrightarrow> testCell \<noteq> Some LIVE_CELL \<and> js_eq n 3"

text \<open>The count that \<open>calcLivingNeighbors\<close> returns for a position with a classification.\<close>

definition living :: "grid \<Rightarrow> int \<Rightarrow> int \<Rightarrow> jsnum" where
  "living g i j =
     count_loop g i j (cellLookup (getCellType (width g) (height g) i j)) 0 (Num 0)"

text \<open>
  A grid object of positive size whose fields \<open>_num_cells\<close> and \<open>cell_types\<close> are
  the ones the constructor computed. No method assigns either field, so every grid
  that the program builds is of this kind (\<open>is_grid_invariant\<close>); the two buffers and
  the newborn report are unconstrained.
\<close>

definition constructed :: "grid \<Rightarrow> bool" where
  "constructed g \<longleftrightarrow>
     0 < width g \<and> 0 < height g \<and> num_cells g = width g * height g - 1 \<and>
     cell_types g = cell_types (Grid (width g) (height g))"

text \<open>The grids that the constructor, \<open>setCell\<close> and \<open>update\<close> can produce.\<close>

inductive is_grid :: "grid \<Rightarrow> bool" where
  construct: "0 < w \<Longrightarrow> 0 < h \<Longrightarrow> is_grid (Grid w h)"
| set_cell: "is_grid g \<Longrightarrow> is_grid (setCell g row col v)"
| step: "is_grid g \<Longrightarrow> update g = Inr g' \<Longrightarrow> is_grid g'"

text \<open>Neither buffer has an element at index \<open>width * height\<close> or beyond.\<close>

definition ends_at_size :: "grid \<Rightarrow> bool" where
  "ends_at_size g \<longleftrightarrow>
     (\<forall>k. width g * height g \<le> k \<longrightarrow> cells g k = None \<and> next_cells g k = None)"

text \<open>
  A buffer whose \<open>w * h\<close> elements are all \<open>DEAD_CELL\<close> or \<open>LIVE_CELL\<close>, and
  which holds no other value under any key.
\<close>

definition binary_buffer :: "int \<Rightarrow> int \<Rightarrow> (int \<rightharpoonup> int) \<Rightarrow> bool" where
  "binary_buffer w h b \<longleftrightarrow>
     (\<forall>k. 0 \<le> k \<and> k < w * h \<longrightarrow> b k = Some DEAD_CELL \<or> b k = Some LIVE_CELL) \<and>
     (\<forall>k v. b k = Some v \<longrightarrow> v = DEAD_CELL \<or> v = LIVE_CELL)"

definition binary_grid :: "grid \<Rightarrow> bool" where
  "binary_grid g \<longleftrightarrow>
     binary_buffer (width g) (height g) (cells g) \<and>
     binary_buffer (width g) (height g) (next_cells g)"

text \<open>
  The number that the counting loop adds for row \<open>r\<close>, column \<open>c\<close>: the element at
  \<open>r * width + c\<close> of the current buffer, whether or not \<open>(r, c)\<close> is a position of
  the grid.
\<close>

definition rd :: "grid \<Rightarrow> int \<Rightarrow> int \<Rightarrow> jsnum" where
  "rd g r c = to_number (cells g (r * width g + c))"

text \<open>
  The current buffer shows the pattern \<open>P\<close>: a position of the grid holds
  \<open>LIVE_CELL\<close> where \<open>P\<close> holds and \<open>DEAD_CELL\<close> elsewhere.
\<close>

definition shows_pattern :: "grid \<Rightarrow> (int \<Rightarrow> int \<Rightarrow> bool) \<Rightarrow> bool" where
  "shows_pattern g P \<longleftrightarrow>
     (\<forall>row col. in_grid g row col \<longrightarrow>
        cells g (row * width g + col) = Some (if P row col then LIVE_CELL else DEAD_CELL))"

definition alive :: "(int \<Rightarrow> int \<Rightarrow> bool) \<Rightarrow> int \<Rightarrow> int \<Rightarrow> int" where
  "alive P row col = (if P row col then 1 else 0)"

text \<open>The two phases of the blinker: cells (2,1), (2,2), (2,3) and cells (1,2), (2,2), (3,2).\<close>

definition horizontal :: "int \<Rightarrow> int \<Rightarrow> bool" where
  "horizontal row col \<longleftrightarrow> row = 2 \<and> (col = 1 \<or> col = 2 \<or> col = 3)"

definition vertical :: "int \<Rightarrow> int \<Rightarrow> bool" where
  "vertical row col \<longleftrightarrow> col = 2 \<and> (row = 1 \<or> row = 2 \<or> row = 3)"

text \<open>A fresh grid on which the pattern stamper has set the horizontal phase.\<close>

definition blinker :: "int \<Rightarrow> int \<Rightarrow> grid" where
  "blinker w h =
     setCell (setCell (setCell (Grid w h) 2 1 LIVE_CELL) 2 2 LIVE_CELL) 2 3 LIVE_CELL"

section \<open>The constructor\<close>

declare init_cols.simps [simp del] init_rows.simps [simp del] count_loop.simps [simp del]
  update_cols.simps [simp del] update_rows.simps [simp del]

text \<open>
  The nested loop of the constructor writes the elements \<open>0\<close> to \<open>w * h - 1\<close> of
  both buffers and of \<open>cell_types\<close>, row by row.
\<close>

lemma init_cols_frame:
  "width (init_cols w h i j g) = width g \<and> height (init_cols w h i j g) = height g \<and>
   num_cells (init_cols w h i j g) = num_cells g \<and> newborns (init_cols w h i j g) = newborns g"
proof (induction w h i j g rule: init_cols.induct)
  case (1 w h i j g)
  show ?case
  proof (cases "j < w")
    case True
    with "1" show ?thesis by (subst (1 2 3 4) init_cols.simps) (simp add: Let_def)
  next
    case False
    then show ?thesis by (auto simp add: init_cols.simps)
  qed
qed

lemma init_cols_cells:
  "cells (init_cols w h i j g) k =
     (if i * w + j \<le> k \<and> k < i * w + w then Some DEAD_CELL else cells g k)"
proof (induction w h i j g rule: init_cols.induct)
  case (1 w h i j g)
  show ?case
  proof (cases "j < w")
    case True
    with "1" show ?thesis by (subst init_cols.simps) (auto simp add: Let_def)
  next
    case False
    then show ?thesis by (auto simp add: init_cols.simps)
  qed
qed

lemma init_cols_next:
  "next_cells (init_cols w h i j g) k =
     (if i * w + j \<le> k \<and> k < i * w + w then Some DEAD_CELL else next_cells g k)"
proof (induction w h i j g rule: init_cols.induct)
  case (1 w h i j g)
  show ?case
  proof (cases "j < w")
    case True
    with "1" show ?thesis by (subst init_cols.simps) (auto simp add: Let_def)
  next
    case False
    then show ?thesis by (auto simp add: init_cols.simps)
  qed
qed

lemma init_cols_types:
  "cell_types (init_cols w h i j g) k =
     (if i * w + j \<le> k \<and> k < i * w + w then Some (getCellType w h i (k - i * w))
      else cell_types g k)"
proof (induction w h i j g rule: init_cols.induct)
  case (1 w h i j g)
  show ?case
  proof (cases "j < w")
    case True
    with "1" show ?thesis by (subst init_cols.simps) (auto simp add: Let_def)
  next
    case False
    then show ?thesis by (auto simp add: init_cols.simps)
  qed
qed

lemma init_rows_frame:
  "width (init_rows w h i g) = width g \<and> height (init_rows w h i g) = height g \<and>
   num_cells (init_rows w h i g) = num_cells g \<and> newborns (init_rows w h i g) = newborns g"
proof (induction w h i g rule: init_rows.induct)
  case (1 w h i g)
  show ?case
  proof (cases "i < h")
    case True
    with "1" show ?thesis by (subst (1 2 3 4) init_rows.simps) (simp add: init_cols_frame)
  next
    case False
    then show ?thesis by (simp add: init_rows.simps)
  qed
qed

lemma row_range_step:
  fixes w :: int
  assumes "0 < w" "i < h"
  shows "(i * w \<le> k \<and> k < h * w) \<longleftrightarrow> (i * w \<le> k \<and> k < i * w + w) \<or> ((i + 1) * w \<le> k \<and> k < h * w)"
proof -
  have "(i + 1) * w \<le> h * w" using assms by (intro mult_right_mono) auto
  moreover have "(i + 1) * w = i * w + w" by (simp add: algebra_simps)
  ultimately show ?thesis using assms by auto
qed

lemma row_range_empty:
  fixes w :: int
  assumes "0 < w" "\<not> i < h"
  shows "\<not> (i * w \<le> k \<and> k < h * w)"
proof -
  have "h * w \<le> i * w" using assms by (intro mult_right_mono) auto
  then show ?thesis by auto
qed

lemma div_mod_offset:
  fixes w :: int
  assumes "0 \<le> d" "d < w"
  shows "(d + i * w) div w = i" "(d + i * w) mod w = d"
  using assms by simp_all

lemma div_mod_row:
  fixes w :: int
  assumes "0 < w" "i * w \<le> k" "k < i * w + w"
  shows "k div w = i" "k mod w = k - i * w"
  using div_mod_offset [of "k - i * w" w i] assms by simp_all

lemma init_rows_cells:
  assumes "0 < w"
  shows "cells (init_rows w h i g) k =
     (if i * w \<le> k \<and> k < h * w then Some DEAD_CELL else cells g k)"
  using assms
proof (induction w h i g rule: init_rows.induct)
  case (1 w h i g)
  show ?case
  proof (cases "i < h")
    case True
    have "cells (init_rows w h i g) k = cells (init_rows w h (i + 1) (init_cols w h i 0 g)) k"
      using True by (subst init_rows.simps) simp
    also have "\<dots> = (if (i + 1) * w \<le> k \<and> k < h * w then Some DEAD_CELL
                     else cells (init_cols w h i 0 g) k)"
      using "1.IH" [OF True "1.prems"] .
    finally show ?thesis
      using row_range_step [OF "1.prems" True, of k] by (auto simp add: init_cols_cells)
  next
    case False
    then show ?thesis using row_range_empty [OF "1.prems" False, of k]
      by (auto simp add: init_rows.simps)
  qed
qed

lemma init_rows_next:
  assumes "0 < w"
  shows "next_cells (init_rows w h i g) k =
     (if i * w \<le> k \<and> k < h * w then Some DEAD_CELL else next_cells g k)"
  using assms
proof (induction w h i g rule: init_rows.induct)
  case (1 w h i g)
  show ?case
  proof (cases "i < h")
    case True
    have "next_cells (init_rows w h i g) k =
          next_cells (init_rows w h (i + 1) (init_cols w h i 0 g)) k"
      using True by (subst init_rows.simps) simp
    also have "\<dots> = (if (i + 1) * w \<le> k \<and> k < h * w then Some DEAD_CELL
                     else next_cells (init_cols w h i 0 g) k)"
      using "1.IH" [OF True "1.prems"] .
    finally show ?thesis
      using row_range_step [OF "1.prems" True, of k] by (auto simp add: init_cols_next)
  next
    case False
    then show ?thesis using row_range_empty [OF "1.prems" False, of k]
      by (auto simp add: init_rows.simps)
  qed
qed

lemma init_rows_types:
  assumes "0 < w"
  shows "cell_types (init_rows w h i g) k =
     (if i * w \<le> k \<and> k < h * w then Some (getCellType w h (k div w) (k mod w))
      else cell_types g k)"
  using assms
proof (induction w h i g rule: init_rows.induct)
  case (1 w h i g)
  show ?case
  proof (cases "i < h")
    case True
    have "cell_types (init_rows w h i g) k =
          cell_types (init_rows w h (i + 1) (init_cols w h i 0 g)) k"
      using True by (subst init_rows.simps) simp
    also have "\<dots> = (if (i + 1) * w \<le> k \<and> k < h * w
                     then Some (getCellType w h (k div w) (k mod w))
                     else cell_types (init_cols w h i 0 g) k)"
      using "1.IH" [OF True "1.prems"] .
    finally show ?thesis
      using row_range_step [OF "1.prems" True, of k] div_mod_row [OF "1.prems", of i k]
      by (auto simp add: init_cols_types)
  next
    case False
    then show ?thesis using row_range_empty [OF "1.prems" False, of k]
      by (auto simp add: init_rows.simps)
  qed
qed

lemma Grid_fields:
  "width (Grid w h) = w" "height (Grid w h) = h" "num_cells (Grid w h) = w * h - 1"
  "newborns (Grid w h) = Map.empty"
  by (simp_all add: Grid_def init_rows_frame)

lemma Grid_cells:
  "0 < w \<Longrightarrow> cells (Grid w h) k = (if 0 \<le> k \<and> k < w * h then Some DEAD_CELL else None)"
  by (simp add: Grid_def init_rows_cells mult.commute)

lemma Grid_next:
  "0 < w \<Longrightarrow> next_cells (Grid w h) k = (if 0 \<le> k \<and> k < w * h then Some DEAD_CELL else None)"
  by (simp add: Grid_def init_rows_next mult.commute)

lemma Grid_types:
  "0 < w \<Longrightarrow> cell_types (Grid w h) k =
     (if 0 \<le> k \<and> k < w * h then Some (getCellType w h (k div w) (k mod w)) else None)"
  by (simp add: Grid_def init_rows_types mult.commute)

lemma constructed_Grid: "0 < w \<Longrightarrow> 0 < h \<Longrightarrow> constructed (Grid w h)"
  by (simp add: constructed_def Grid_fields)

lemma setCell_fields:
  "width (setCell g row col v) = width g" "height (setCell g row col v) = height g"
  "num_cells (setCell g row col v) = num_cells g"
  "cell_types (setCell g row col v) = cell_types g"
  "next_cells (setCell g row col v) = next_cells g"
  "newborns (setCell g row col v) = newborns g"
  by (simp_all add: setCell_def)

lemma constructed_setCell: "constructed g \<Longrightarrow> constructed (setCell g row col v)"
  by (simp add: constructed_def setCell_fields)

section \<open>The pass of update\<close>

text \<open>
  The count and the tested cell depend on the current buffer, the width and the
  constructor's tables only, so the writes of the pass to the next buffer and to the
  newborn report do not change them. \<open>update_result\<close> gives the grid after
  \<open>update\<close> in closed form.
\<close>

lemma count_loop_cong:
  assumes "cells g' = cells g" "width g' = width g"
  shows "count_loop g' row col ct c n = count_loop g row col ct c n"
  using assms
proof (induction g row col ct c n rule: count_loop.induct)
  case (1 g row col ct c n)
  show ?case
  proof (cases "c < numNeighbors ct * 2")
    case True
    show ?thesis
      apply (subst count_loop.simps)
      apply (subst (2) count_loop.simps)
      using True "1.IH" [OF True refl refl refl refl "1.prems"] "1.prems"
      by (simp add: Let_def)
  next
    case False
    then show ?thesis by (simp add: count_loop.simps)
  qed
qed

lemma calcLivingNeighbors_cong:
  assumes "cells g' = cells g" "width g' = width g" "cell_types g' = cell_types g"
  shows "calcLivingNeighbors g' row col = calcLivingNeighbors g row col"
  using assms
  by (simp add: calcLivingNeighbors_def determineCellType_def count_loop_cong [OF assms(1,2)]
      split: option.splits)

lemma getCell_cong:
  assumes "cells g' = cells g" "width g' = width g" "num_cells g' = num_cells g"
  shows "getCell g' row col = getCell g row col"
  using assms by (simp add: getCell_def isValidCell_def)

lemma getCell_frame [simp]:
  "getCell (g\<lparr>next_cells := a\<rparr>) row col = getCell g row col"
  "getCell (g\<lparr>newborns := b\<rparr>) row col = getCell g row col"
  by (rule getCell_cong; simp)+

lemma calcLivingNeighbors_frame [simp]:
  "calcLivingNeighbors (g\<lparr>next_cells := a\<rparr>) row col = calcLivingNeighbors g row col"
  "calcLivingNeighbors (g\<lparr>newborns := b\<rparr>) row col = calcLivingNeighbors g row col"
  by (rule calcLivingNeighbors_cong; simp)+


lemma update_cell_result:
  assumes "calcLivingNeighbors g i j = Inr n" "newborns g i = Some r"
  shows "update_cell g i j =
     Inr (g\<lparr>next_cells := (next_cells g)(i * width g + j \<mapsto> rule_value (getCell g i j) n),
            newborns := (newborns g)(i \<mapsto> r @ (if is_born (getCell g i j) n then [j] else []))\<rparr>)"
  using assms by (simp add: update_cell_def rule_value_def is_born_def map_upd_triv)

lemma upto_filter_step:
  "j < w \<Longrightarrow> filter P [j..w - 1] = (if P j then [j] else []) @ filter P [j + 1..w - 1]"
  by (subst upto_rec1) auto

lemma update_cols_result:
  assumes "\<forall>c. j \<le> c \<and> c < w \<longrightarrow> calcLivingNeighbors g i c = Inr (cnt c)"
    and "newborns g i = Some r" and "width g = w"
  shows "update_cols w i j g =
     Inr (g\<lparr>next_cells := (\<lambda>k. if i * w + j \<le> k \<and> k < i * w + w
                                then Some (rule_value (getCell g i (k - i * w)) (cnt (k - i * w)))
                                else next_cells g k),
            newborns := (newborns g)
              (i \<mapsto> r @ filter (\<lambda>c. is_born (getCell g i c) (cnt c)) [j..w - 1])\<rparr>)"
  using assms
proof (induction w i j g arbitrary: r rule: update_cols.induct)
  case (1 w i j g)
  show ?case
  proof (cases "j < w")
    case True
    define r1 where "r1 = r @ (if is_born (getCell g i j) (cnt j) then [j] else [])"
    define g1 where "g1 = g\<lparr>next_cells := (next_cells g)(i * width g + j \<mapsto> rule_value (getCell g i j) (cnt j)),
            newborns := (newborns g)(i \<mapsto> r1)\<rparr>"
    have c: "calcLivingNeighbors g i j = Inr (cnt j)" using "1.prems"(1) True by simp
    have step: "update_cell g i j = Inr g1"
      unfolding g1_def r1_def by (rule update_cell_result [OF c "1.prems"(2)])
    have p1: "\<forall>c. j + 1 \<le> c \<and> c < w \<longrightarrow> calcLivingNeighbors g1 i c = Inr (cnt c)"
      using "1.prems"(1) by (simp add: g1_def)
    have p2: "newborns g1 i = Some r1"
      unfolding g1_def by simp
    have p3: "width g1 = w" using "1.prems"(3) unfolding g1_def by simp
    have "update_cols w i j g = update_cols w i (j + 1) g1"
      using True step by (subst update_cols.simps) simp
    also have "\<dots> = Inr (g1\<lparr>next_cells := (\<lambda>k. if i * w + (j + 1) \<le> k \<and> k < i * w + w
                                then Some (rule_value (getCell g1 i (k - i * w)) (cnt (k - i * w)))
                                else next_cells g1 k),
            newborns := (newborns g1)
              (i \<mapsto> r1 @ filter (\<lambda>c. is_born (getCell g1 i c) (cnt c)) [j + 1..w - 1])\<rparr>)"
      by (rule "1.IH" [OF True step p1 p2 p3])
    also have "\<dots> = Inr (g\<lparr>next_cells := (\<lambda>k. if i * w + j \<le> k \<and> k < i * w + w
                                then Some (rule_value (getCell g i (k - i * w)) (cnt (k - i * w)))
                                else next_cells g k),
            newborns := (newborns g)
              (i \<mapsto> r @ filter (\<lambda>c. is_born (getCell g i c) (cnt c)) [j..w - 1])\<rparr>)"
      using True "1.prems"(3)
      by (auto simp add: g1_def r1_def upto_filter_step [OF True] fun_eq_iff)
    finally show ?thesis .
  next
    case False
    then have e: "[j..w - 1] = []" by simp
    have f: "(\<lambda>k. if i * w + j \<le> k \<and> k < i * w + w
                 then Some (rule_value (getCell g i (k - i * w)) (cnt (k - i * w)))
                 else next_cells g k) = next_cells g"
      using False by (auto simp add: fun_eq_iff)
    show ?thesis
      using False "1.prems"(2) by (subst update_cols.simps) (simp add: e f map_upd_triv)
  qed
qed

lemma update_rows_result:
  assumes "\<forall>r c. i \<le> r \<and> r < h \<and> 0 \<le> c \<and> c < w \<longrightarrow> calcLivingNeighbors g r c = Inr (cnt r c)"
    and "width g = w" and "0 < w"
  shows "update_rows w h i g =
     Inr (g\<lparr>next_cells := (\<lambda>k. if i * w \<le> k \<and> k < h * w
                then Some (rule_value (getCell g (k div w) (k mod w)) (cnt (k div w) (k mod w)))
                else next_cells g k),
            newborns := (\<lambda>r. if i \<le> r \<and> r < h
                then Some (filter (\<lambda>c. is_born (getCell g r c) (cnt r c)) [0..w - 1])
                else newborns g r)\<rparr>)"
  using assms
proof (induction w h i g rule: update_rows.induct)
  case (1 w h i g)
  show ?case
  proof (cases "i < h")
    case True
    define g0 where "g0 = g\<lparr>newborns := (newborns g)(i \<mapsto> [])\<rparr>"
    define g1 where "g1 = g0\<lparr>next_cells := (\<lambda>k. if i * w + 0 \<le> k \<and> k < i * w + w
                                then Some (rule_value (getCell g0 i (k - i * w)) (cnt i (k - i * w)))
                                else next_cells g0 k),
            newborns := (newborns g0)
              (i \<mapsto> [] @ filter (\<lambda>c. is_born (getCell g0 i c) (cnt i c)) [0..w - 1])\<rparr>"
    have q1: "\<forall>c. 0 \<le> c \<and> c < w \<longrightarrow> calcLivingNeighbors g0 i c = Inr (cnt i c)"
      using "1.prems"(1) True by (simp add: g0_def)
    have q2: "newborns g0 i = Some []" by (simp add: g0_def)
    have q3: "width g0 = w" using "1.prems"(2) by (simp add: g0_def)
    have cols: "update_cols w i 0 g0 = Inr g1"
      unfolding g1_def by (rule update_cols_result [OF q1 q2 q3])
    have p1: "\<forall>r c. i + 1 \<le> r \<and> r < h \<and> 0 \<le> c \<and> c < w \<longrightarrow>
                calcLivingNeighbors g1 r c = Inr (cnt r c)"
      using "1.prems"(1) by (simp add: g1_def g0_def)
    have p2: "width g1 = w" using "1.prems"(2) by (simp add: g1_def g0_def)
    have "update_rows w h i g = update_rows w h (i + 1) g1"
      using True cols by (subst update_rows.simps) (simp add: g0_def)
    also have "\<dots> = Inr (g1\<lparr>next_cells := (\<lambda>k. if (i + 1) * w \<le> k \<and> k < h * w
                then Some (rule_value (getCell g1 (k div w) (k mod w)) (cnt (k div w) (k mod w)))
                else next_cells g1 k),
            newborns := (\<lambda>r. if i + 1 \<le> r \<and> r < h
                then Some (filter (\<lambda>c. is_born (getCell g1 r c) (cnt r c)) [0..w - 1])
                else newborns g1 r)\<rparr>)"
      by (rule "1.IH" [OF True cols [unfolded g0_def] p1 p2 "1.prems"(3)])
    also have "\<dots> = Inr (g\<lparr>next_cells := (\<lambda>k. if i * w \<le> k \<and> k < h * w
                then Some (rule_value (getCell g (k div w) (k mod w)) (cnt (k div w) (k mod w)))
                else next_cells g k),
            newborns := (\<lambda>r. if i \<le> r \<and> r < h
                then Some (filter (\<lambda>c. is_born (getCell g r c) (cnt r c)) [0..w - 1])
                else newborns g r)\<rparr>)"
    proof -
      have n: "\<And>k. (if (i + 1) * w \<le> k \<and> k < h * w
                then Some (rule_value (getCell g (k div w) (k mod w)) (cnt (k div w) (k mod w)))
                else if i * w \<le> k \<and> k < i * w + w
                     then Some (rule_value (getCell g i (k - i * w)) (cnt i (k - i * w)))
                     else next_cells g k) =
              (if i * w \<le> k \<and> k < h * w
                then Some (rule_value (getCell g (k div w) (k mod w)) (cnt (k div w) (k mod w)))
                else next_cells g k)"
        using row_range_step [OF "1.prems"(3) True] div_mod_row [OF "1.prems"(3), of i]
        by auto
      have b: "\<And>r. (if i + 1 \<le> r \<and> r < h
                then Some (filter (\<lambda>c. is_born (getCell g r c) (cnt r c)) [0..w - 1])
                else if r = i then Some (filter (\<lambda>c. is_born (getCell g i c) (cnt i c)) [0..w - 1])
                else newborns g r) =
              (if i \<le> r \<and> r < h
                then Some (filter (\<lambda>c. is_born (getCell g r c) (cnt r c)) [0..w - 1])
                else newborns g r)"
        using True by auto
      show ?thesis
        unfolding g1_def g0_def
        by (rule arg_cong [where f = Inr], rule grid.equality) (simp_all add: n b cong: if_cong)
    qed
    finally show ?thesis .
  next
    case False
    have f: "(\<lambda>k. if i * w \<le> k \<and> k < h * w
                then Some (rule_value (getCell g (k div w) (k mod w)) (cnt (k div w) (k mod w)))
                else next_cells g k) = next_cells g"
      using row_range_empty [OF "1.prems"(3) False] by (auto simp add: fun_eq_iff)
    have e: "(\<lambda>r. if i \<le> r \<and> r < h
                then Some (filter (\<lambda>c. is_born (getCell g r c) (cnt r c)) [0..w - 1])
                else newborns g r) = newborns g"
      using False by (auto simp add: fun_eq_iff)
    show ?thesis
      using False by (subst update_rows.simps) (simp add: e f)
  qed
qed

lemma constructed_calc:
  assumes "constructed g" "0 \<le> i" "i < height g" "0 \<le> j" "j < width g"
  shows "calcLivingNeighbors g i j = Inr (living g i j)"
proof -
  let ?w = "width g"
  have w: "0 < ?w" using assms(1) by (simp add: constructed_def)
  have lo: "0 \<le> i * ?w + j" using assms(2,4) w by simp
  have "(i + 1) * ?w \<le> height g * ?w" using assms(3) w by (intro mult_right_mono) auto
  then have hi: "i * ?w + j < ?w * height g" using assms(5) by (simp add: algebra_simps)
  have dm: "(i * ?w + j) div ?w = i" "(i * ?w + j) mod ?w = j"
    using div_mod_offset [of j ?w i] assms(4,5) by (simp_all add: add.commute)
  have "cell_types g (i * ?w + j) = Some (getCellType ?w (height g) i j)"
    using assms(1) lo hi dm w by (simp add: constructed_def Grid_types)
  then show ?thesis
    by (simp add: calcLivingNeighbors_def determineCellType_def living_def)
qed

lemma update_result:
  assumes "constructed g"
  shows "update g =
     Inr (g\<lparr>cells := (\<lambda>k. if 0 \<le> k \<and> k < width g * height g
                then Some (rule_value (getCell g (k div width g) (k mod width g))
                             (living g (k div width g) (k mod width g)))
                else next_cells g k),
            next_cells := cells g,
            newborns := (\<lambda>r. if 0 \<le> r \<and> r < height g
                then Some (filter (\<lambda>c. is_born (getCell g r c) (living g r c)) [0..width g - 1])
                else None)\<rparr>)"
proof -
  let ?g0 = "g\<lparr>newborns := Map.empty\<rparr>"
  have w: "0 < width g" using assms by (simp add: constructed_def)
  have c: "\<forall>r c. 0 \<le> r \<and> r < height g \<and> 0 \<le> c \<and> c < width g \<longrightarrow>
             calcLivingNeighbors ?g0 r c = Inr (living g r c)"
    using assms by (simp add: constructed_calc)
  have "width ?g0 = width g" by simp
  note rows = update_rows_result [OF c this w]
  show ?thesis
    unfolding update_def rows
    apply (simp only: sum.case)
    apply (rule arg_cong [where f = Inr])
    apply (rule grid.equality)
    apply (simp_all add: mult.commute cong: if_cong)
    done
qed

lemma constructed_update:
  assumes "constructed g" "update g = Inr g'"
  shows "constructed g'"
  using assms by (auto simp add: update_result constructed_def)

lemma grid_index:
  assumes "0 < width g" "in_grid g r c"
  shows "0 \<le> r * width g + c" "r * width g + c < width g * height g"
    "(r * width g + c) div width g = r" "(r * width g + c) mod width g = c"
proof -
  let ?w = "width g"
  have b: "0 \<le> r" "r < height g" "0 \<le> c" "c < ?w"
    using assms(2) by (simp_all add: in_grid_def)
  show "0 \<le> r * ?w + c" using b assms(1) by simp
  have "(r + 1) * ?w \<le> height g * ?w" using b assms(1) by (intro mult_right_mono) auto
  then show "r * ?w + c < ?w * height g" using b by (simp add: algebra_simps)
  show "(r * ?w + c) div ?w = r" "(r * ?w + c) mod ?w = c"
    using div_mod_offset [of c ?w r] b by (simp_all add: add.commute)
qed

lemma update_pattern:
  assumes "constructed g" and "update g = Inr g'"
    and "\<And>r c. in_grid g r c \<Longrightarrow>
           rule_value (getCell g r c) (living g r c) = (if Q r c then LIVE_CELL else DEAD_CELL)"
  shows "shows_pattern g' Q"
proof -
  have w: "0 < width g" using assms(1) by (simp add: constructed_def)
  have g': "g' = g\<lparr>cells := (\<lambda>k. if 0 \<le> k \<and> k < width g * height g
                then Some (rule_value (getCell g (k div width g) (k mod width g))
                             (living g (k div width g) (k mod width g)))
                else next_cells g k),
            next_cells := cells g,
            newborns := (\<lambda>r. if 0 \<le> r \<and> r < height g
                then Some (filter (\<lambda>c. is_born (getCell g r c) (living g r c)) [0..width g - 1])
                else None)\<rparr>"
    using assms(2) by (simp add: update_result [OF assms(1)])
  show ?thesis
    unfolding shows_pattern_def
  proof (intro allI impI)
    fix row col
    assume "in_grid g' row col"
    then have i: "in_grid g row col" by (simp add: g' in_grid_def)
    show "cells g' (row * width g' + col) = Some (if Q row col then LIVE_CELL else DEAD_CELL)"
      using grid_index [OF w i] assms(3) [OF i] by (simp add: g')
  qed
qed

section \<open>Invariants of the grids the program builds\<close>

lemma rule_value_binary: "rule_value t n = DEAD_CELL \<or> rule_value t n = LIVE_CELL"
  by (simp add: rule_value_def)

lemma is_born_iff:
  "is_born t n \<longleftrightarrow> t \<noteq> Some LIVE_CELL \<and> rule_value t n = LIVE_CELL"
  by (simp add: is_born_def rule_value_def LIVE_CELL_def DEAD_CELL_def)

lemma binary_Grid:
  assumes "0 < w"
  shows "binary_grid (Grid w h)"
  using assms by (simp add: binary_grid_def binary_buffer_def Grid_fields Grid_cells Grid_next)

lemma all_dead_Grid:
  assumes "0 < w" "cells (Grid w h) k = Some v \<or> next_cells (Grid w h) k = Some v"
  shows "v = DEAD_CELL"
  using assms by (auto simp add: Grid_cells Grid_next split: if_splits)

lemma binary_setCell:
  assumes "binary_grid g" "v = DEAD_CELL \<or> v = LIVE_CELL"
  shows "binary_grid (setCell g row col v)"
  using assms by (auto simp add: binary_grid_def binary_buffer_def setCell_def)

lemma binary_update:
  assumes "constructed g" "binary_grid g"
  shows "\<exists>g'. update g = Inr g' \<and> binary_grid g'"
  using assms rule_value_binary
  by (auto simp add: update_result binary_grid_def binary_buffer_def)

lemma sorted_filter_upto: "sorted_wrt (<) (filter P [i..j])"
  by (rule sorted_wrt_filter) (simp add: sorted_wrt_upto)

lemma ends_at_size_Grid: "0 < w \<Longrightarrow> ends_at_size (Grid w h)"
  by (simp add: ends_at_size_def Grid_fields Grid_cells Grid_next)

lemma ends_at_size_setCell:
  assumes "constructed g" "ends_at_size g"
  shows "ends_at_size (setCell g row col v)"
  using assms
  by (auto simp add: ends_at_size_def setCell_def isValidCell_def constructed_def)

lemma ends_at_size_update:
  assumes "constructed g" "ends_at_size g" "update g = Inr g'"
  shows "ends_at_size g'"
  using assms by (auto simp add: update_result ends_at_size_def)

lemma is_grid_invariant:
  assumes "is_grid g"
  shows "constructed g \<and> ends_at_size g"
  using assms
proof (induction rule: is_grid.induct)
  case (construct w h)
  then show ?case by (simp add: constructed_Grid ends_at_size_Grid)
next
  case (set_cell g row col v)
  then show ?case by (simp add: constructed_setCell ends_at_size_setCell)
next
  case (step g g')
  then show ?case by (blast intro: constructed_update ends_at_size_update)
qed

section \<open>The count, region by region\<close>

text \<open>
  \<open>living_regions\<close> states which cells the counting loop adds up for each position,
  following the classification that \<open>_getCellType\<close> computes: the bottom row reads
  below the grid and counts \<open>NaN\<close>, the rightmost column reads the first column of
  the following rows.
\<close>

lemma js_add_NaN [simp]: "js_add x NaN = NaN"
  by (cases x) simp_all

lemma count_kinds:
  "count_loop g r c (cellLookup TOP_LEFT) 0 (Num 0) =
     foldl js_add (Num 0) [rd g r (c + 1), rd g (r + 1) (c + 1), rd g (r + 1) c]"
  "count_loop g r c (cellLookup TOP_RIGHT) 0 (Num 0) =
     foldl js_add (Num 0) [rd g r (c - 1), rd g (r + 1) (c - 1), rd g (r + 1) c]"
  "count_loop g r c (cellLookup BOTTOM_LEFT) 0 (Num 0) =
     foldl js_add (Num 0) [rd g r (c + 1), rd g (r - 1) (c + 1), rd g (r - 1) c]"
  "count_loop g r c (cellLookup BOTTOM_RIGHT) 0 (Num 0) =
     foldl js_add (Num 0) [rd g r (c - 1), rd g (r - 1) (c - 1), rd g (r - 1) c]"
  "count_loop g r c (cellLookup TOP) 0 (Num 0) =
     foldl js_add (Num 0)
       [rd g r (c - 1), rd g (r + 1) (c - 1), rd g (r + 1) c, rd g (r + 1) (c + 1),
        rd g r (c + 1)]"
  "count_loop g r c (cellLookup BOTTOM) 0 (Num 0) =
     foldl js_add (Num 0)
       [rd g r (c - 1), rd g (r - 1) (c - 1), rd g (r - 1) c, rd g (r - 1) (c + 1),
        rd g r (c + 1)]"
  "count_loop g r c (cellLookup LEFT) 0 (Num 0) =
     foldl js_add (Num 0)
       [rd g (r - 1) c, rd g (r - 1) (c + 1), rd g r (c + 1), rd g (r + 1) (c + 1),
        rd g (r + 1) c]"
  "count_loop g r c (cellLookup RIGHT) 0 (Num 0) =
     foldl js_add (Num 0)
       [rd g (r - 1) c, rd g (r - 1) (c - 1), rd g r (c - 1), rd g (r + 1) (c - 1),
        rd g (r + 1) c]"
  "count_loop g r c (cellLookup CENTER) 0 (Num 0) =
     foldl js_add (Num 0)
       [rd g (r - 1) (c - 1), rd g r (c - 1), rd g (r + 1) (c - 1), rd g (r + 1) c,
        rd g (r + 1) (c + 1), rd g r (c + 1), rd g (r - 1) (c + 1), rd g (r - 1) c]"
  by (simp_all add: count_loop.simps js_index_def buf_get_def rd_def Let_def)

lemma rd_in:
  assumes "shows_pattern g P" "in_grid g r c"
  shows "rd g r c = Num (if P r c then 1 else 0)"
  using assms by (simp add: shows_pattern_def rd_def LIVE_CELL_def DEAD_CELL_def)

lemma rd_alive:
  assumes "shows_pattern g P" "0 \<le> r" "r < height g" "0 \<le> c" "c < width g"
  shows "rd g r c = Num (alive P r c)"
  using rd_in [OF assms(1), of r c] assms(2-) by (simp add: in_grid_def alive_def)

lemma rd_wrap: "rd g r (width g) = rd g (r + 1) 0"
  by (simp add: rd_def algebra_simps)

lemma rd_below:
  assumes "ends_at_size g" "0 < width g" "height g \<le> r" "0 \<le> c"
  shows "rd g r c = NaN"
proof -
  have "height g * width g \<le> r * width g"
    using assms(2,3) by (intro mult_right_mono) auto
  then have "width g * height g \<le> r * width g + c"
    using assms(4) by (simp add: mult.commute)
  then show ?thesis
    using assms(1) by (simp add: ends_at_size_def rd_def)
qed

lemma living_regions:
  assumes "constructed g" "ends_at_size g" "shows_pattern g P"
    and "2 \<le> width g" "2 \<le> height g" "in_grid g r c"
  shows "living g r c =
     (if r = 0 \<and> c = 0 then Num (alive P 0 1 + alive P 1 1 + alive P 1 0)
      else if r = 0 \<and> c = width g - 1 then
        Num (alive P 0 (width g - 2) + alive P 1 (width g - 2) + alive P 1 (width g - 1))
      else if r = height g - 1 \<and> c = 0 then
        Num (alive P (height g - 1) 1 + alive P (height g - 2) 1 + alive P (height g - 2) 0)
      else if r = height g - 1 \<and> c = height g - 1 then
        Num (alive P (height g - 1) (height g - 2) + alive P (height g - 2) (height g - 2)
             + alive P (height g - 2) (height g - 1))
      else if r = 0 then
        Num (alive P 0 (c - 1) + alive P 1 (c - 1) + alive P 1 c + alive P 1 (c + 1)
             + alive P 0 (c + 1))
      else if c = 0 then
        Num (alive P (r - 1) 0 + alive P (r - 1) 1 + alive P r 1 + alive P (r + 1) 1
             + alive P (r + 1) 0)
      else if r = height g - 1 then NaN
      else if c = width g - 1 then
        Num (alive P r (width g - 2) + alive P (r - 1) (width g - 2)
             + alive P (r - 1) (width g - 1) + alive P r 0 + alive P (r + 1) 0)
      else
        Num (alive P (r - 1) (c - 1) + alive P r (c - 1) + alive P (r + 1) (c - 1)
             + alive P (r + 1) c + alive P (r + 1) (c + 1) + alive P r (c + 1)
             + alive P (r - 1) (c + 1) + alive P (r - 1) c))"
proof -
  note rdP = rd_alive [OF assms(3)]
  have w: "0 < width g" using assms(4) by simp
  note below = rd_below [OF assms(2) w]
  show ?thesis
    using assms(4,5,6)
    by (auto simp add: living_def getCellType_def count_kinds rdP rd_wrap below in_grid_def
        simp del: cellLookup.simps)
qed

lemma small_index:
  fixes w :: int
  assumes "5 \<le> w" "5 \<le> h" "r \<le> 3" "c \<le> 3"
  shows "r * w + c < w * h - 1"
proof -
  have "r * w \<le> 3 * w" using assms(1,3) by (intro mult_right_mono) auto
  moreover have "5 * w \<le> h * w" using assms(1,2) by (intro mult_right_mono) auto
  moreover have "w * h = h * w" by simp
  ultimately show ?thesis using assms(1,4) by linarith
qed

lemma getCell_live:
  assumes "constructed g" "shows_pattern g P" "in_grid g r c"
    and "5 \<le> width g" "5 \<le> height g" "\<forall>r c. P r c \<longrightarrow> r \<le> 3 \<and> c \<le> 3"
  shows "getCell g r c = Some LIVE_CELL \<longleftrightarrow> P r c"
proof (cases "P r c")
  case True
  then have "r * width g + c < width g * height g - 1"
    using small_index [OF assms(4,5), of r c] assms(6) by simp
  then show ?thesis
    using True assms(1,2,3)
    by (simp add: getCell_def isValidCell_def constructed_def shows_pattern_def in_grid_def)
next
  case False
  then show ?thesis
    using assms(1,2,3)
    by (simp add: getCell_def isValidCell_def constructed_def shows_pattern_def in_grid_def
        LIVE_CELL_def DEAD_CELL_def)
qed

lemma blinker_first:
  assumes "constructed g" "ends_at_size g" "shows_pattern g horizontal"
    and "5 \<le> width g" "5 \<le> height g" "in_grid g r c"
  shows "rule_value (getCell g r c) (living g r c) =
           (if vertical r c then LIVE_CELL else DEAD_CELL)"
proof -
  have "\<forall>r c. horizontal r c \<longrightarrow> r \<le> 3 \<and> c \<le> 3" by (auto simp add: horizontal_def)
  note gl = getCell_live [OF assms(1,3,6,4,5) this]
  have d: "2 \<le> width g" "2 \<le> height g" using assms(4,5) by simp_all
  note lv = living_regions [OF assms(1,2,3) d assms(6)]
  have rc: "0 \<le> r" "0 \<le> c" "r < height g" "c < width g"
    using assms(6) by (simp_all add: in_grid_def)
  have r: "r = 0 \<or> r = 1 \<or> r = 2 \<or> r = 3 \<or> 4 \<le> r" using rc by arith
  have c: "c = 0 \<or> c = 1 \<or> c = 2 \<or> c = 3 \<or> c = 4 \<or> 5 \<le> c" using rc by arith
  show ?thesis
    unfolding rule_value_def gl lv
    using assms(4,5) rc r c
    apply (elim disjE)
    apply (simp_all add: alive_def horizontal_def vertical_def LIVE_CELL_def DEAD_CELL_def)
    done
qed

lemma blinker_second:
  assumes "constructed g" "ends_at_size g" "shows_pattern g vertical"
    and "5 \<le> width g" "5 \<le> height g" "in_grid g r c"
  shows "rule_value (getCell g r c) (living g r c) =
           (if horizontal r c then LIVE_CELL else DEAD_CELL)"
proof -
  have "\<forall>r c. vertical r c \<longrightarrow> r \<le> 3 \<and> c \<le> 3" by (auto simp add: vertical_def)
  note gl = getCell_live [OF assms(1,3,6,4,5) this]
  have d: "2 \<le> width g" "2 \<le> height g" using assms(4,5) by simp_all
  note lv = living_regions [OF assms(1,2,3) d assms(6)]
  have rc: "0 \<le> r" "0 \<le> c" "r < height g" "c < width g"
    using assms(6) by (simp_all add: in_grid_def)
  have r: "r = 0 \<or> r = 1 \<or> r = 2 \<or> r = 3 \<or> r = 4 \<or> 5 \<le> r" using rc by arith
  have c: "c = 0 \<or> c = 1 \<or> c = 2 \<or> c = 3 \<or> 4 \<le> c" using rc by arith
  show ?thesis
    unfolding rule_value_def gl lv
    using assms(4,5) rc r c
    apply (elim disjE)
    apply (simp_all add: alive_def horizontal_def vertical_def LIVE_CELL_def DEAD_CELL_def)
    done
qed

lemma blinker_cells:
  "cells (blinker 5 5) =
     (\<lambda>k. if 0 \<le> k \<and> k < 25 then Some DEAD_CELL else None)
       (11 \<mapsto> LIVE_CELL, 12 \<mapsto> LIVE_CELL, 13 \<mapsto> LIVE_CELL)"
  by (simp add: blinker_def setCell_def isValidCell_def Grid_fields Grid_cells fun_eq_iff)

lemma blinker_pattern: "shows_pattern (blinker 5 5) horizontal"
proof -
  have w: "width (blinker 5 5) = 5" "height (blinker 5 5) = 5"
    by (simp_all add: blinker_def setCell_fields Grid_fields)
  show ?thesis
    unfolding shows_pattern_def in_grid_def w blinker_cells horizontal_def
    by (auto simp add: LIVE_CELL_def DEAD_CELL_def)
qed

text \<open>
  The newborn report after \<open>update\<close>: one entry for each row of the grid, holding in
  increasing order the columns whose cell \<open>getCell\<close> did not give as live and the
  pass wrote as live.
\<close>

lemma newborn_report_rows:
  assumes "constructed g"
  shows "\<exists>g'. update g = Inr g' \<and>
           dom (newborns g') = {0..<height g} \<and>
           (\<forall>i cols. newborns g' i = Some cols \<longrightarrow>
              sorted_wrt (<) cols \<and>
              set cols = {c. 0 \<le> c \<and> c < width g \<and> getCell g i c \<noteq> Some LIVE_CELL \<and>
                            cells g' (i * width g + c) = Some LIVE_CELL})"
proof -
  have w: "0 < width g" using assms by (simp add: constructed_def)
  define g' where "g' = g\<lparr>cells := (\<lambda>k. if 0 \<le> k \<and> k < width g * height g
                then Some (rule_value (getCell g (k div width g) (k mod width g))
                             (living g (k div width g) (k mod width g)))
                else next_cells g k),
            next_cells := cells g,
            newborns := (\<lambda>r. if 0 \<le> r \<and> r < height g
                then Some (filter (\<lambda>c. is_born (getCell g r c) (living g r c)) [0..width g - 1])
                else None)\<rparr>"
  have u: "update g = Inr g'"
    unfolding g'_def by (rule update_result [OF assms])
  have d: "dom (newborns g') = {0..<height g}"
    by (auto simp add: g'_def dom_def split: if_splits)
  have r: "sorted_wrt (<) cols \<and>
           set cols = {c. 0 \<le> c \<and> c < width g \<and> getCell g i c \<noteq> Some LIVE_CELL \<and>
                         cells g' (i * width g + c) = Some LIVE_CELL}"
    if n: "newborns g' i = Some cols" for i cols
  proof -
    have i: "0 \<le> i" "i < height g"
      using n by (auto simp add: g'_def split: if_splits)
    have cols: "cols = filter (\<lambda>c. is_born (getCell g i c) (living g i c)) [0..width g - 1]"
      using n i by (simp add: g'_def)
    have cell: "cells g' (i * width g + c) = Some (rule_value (getCell g i c) (living g i c))"
      if "0 \<le> c" "c < width g" for c
    proof -
      have "in_grid g i c" using i that by (simp add: in_grid_def)
      from grid_index [OF w this] show ?thesis by (simp add: g'_def)
    qed
    show ?thesis
      unfolding cols by (auto simp add: sorted_filter_upto is_born_iff cell)
  qed
  show ?thesis using u d r by blast
qed

section \<open>The claims\<close>

text \<open>The equations that evaluate the program on a concrete grid.\<close>

lemmas eval_simps =
  Grid_def init_rows.simps init_cols.simps getCellType_def isValidCell_def setCell_def
  getCell_def determineCellType_def calcLivingNeighbors_def count_loop.simps js_index_def
  buf_get_def update_def update_rows.simps update_cols.simps update_cell_def Let_def
  DEAD_CELL_def LIVE_CELL_def in_grid_def

subsection \<open>Validity of positions, reads and writes\<close>

text \<open>
  C2. The claim: \<open>isValidCell(row, col)\<close> is true exactly for the positions with
  \<open>0 \<le> row < height\<close> and \<open>0 \<le> col < width\<close>, in particular for the bottom-right
  position and for no position with a negative row or column. The function compares
  the flat index with \<open>width * height - 1\<close> and tests no lower bound: on a 3 by 3 grid
  it rejects the bottom-right position (2, 2) and accepts (0, -1).
\<close>

theorem isValidCell_fails_at_grid_corner:
  "in_grid (Grid 3 3) 2 2 \<and> \<not> isValidCell (Grid 3 3) 2 2 \<and>
   \<not> in_grid (Grid 3 3) 0 (- 1) \<and> isValidCell (Grid 3 3) 0 (- 1)"
  by (simp add: eval_simps)

text \<open>
  C7. The claim: \<open>setCell\<close> at a position outside the grid, negative rows and columns
  included, leaves the current buffer unchanged. On a 3 by 3 grid the position (1, -1)
  passes \<open>isValidCell\<close> and the write lands on element 2, the cell (0, 2).
\<close>

theorem setCell_writes_for_negative_column:
  "\<not> in_grid (Grid 3 3) 1 (- 1) \<and>
   cells (Grid 3 3) 2 = Some DEAD_CELL \<and>
   cells (setCell (Grid 3 3) 1 (- 1) LIVE_CELL) 2 = Some LIVE_CELL"
  by (simp add: eval_simps)

text \<open>
  C8. The claim: \<open>getCell\<close> returns a value other than \<open>DEAD_CELL\<close> and
  \<open>LIVE_CELL\<close> outside the grid and the stored state inside it. On a 3 by 3 grid it
  returns the sentinel -1 for the bottom-right cell (2, 2), whose stored state is
  \<open>DEAD_CELL\<close>, and it returns \<open>DEAD_CELL\<close> for the position (1, -1) outside the grid.
\<close>

theorem getCell_wrong_at_corner_and_negative_column:
  "in_grid (Grid 3 3) 2 2 \<and> cells (Grid 3 3) (2 * 3 + 2) = Some DEAD_CELL \<and>
   getCell (Grid 3 3) 2 2 = Some (- 1) \<and>
   \<not> in_grid (Grid 3 3) 1 (- 1) \<and> getCell (Grid 3 3) 1 (- 1) = Some DEAD_CELL"
  by (simp add: eval_simps)

subsection \<open>Classification and neighbour offsets\<close>

text \<open>
  C3. The claim: corners get the corner variants, the other positions of the top row
  \<open>TOP\<close>, of the bottom row \<open>BOTTOM\<close>, of the leftmost column \<open>LEFT\<close>, of the
  rightmost column \<open>RIGHT\<close>, all others \<open>CENTER\<close>. \<open>_getCellType\<close> returns
  \<open>RIGHT\<close> for the bottom row and \<open>BOTTOM\<close> for the rightmost column, and it
  compares the column of the bottom-right corner with \<open>height - 1\<close>: on a grid of
  width 4 and height 3 the corner (2, 3) is classified \<open>RIGHT\<close> and the position
  (2, 2) is classified \<open>BOTTOM_RIGHT\<close>.
\<close>

theorem bottom_row_classified_RIGHT:
  "determineCellType (Grid 3 3) 2 1 = Some RIGHT \<and>
   determineCellType (Grid 3 3) 1 2 = Some BOTTOM \<and>
   determineCellType (Grid 4 3) 2 3 = Some RIGHT \<and>
   determineCellType (Grid 4 3) 2 2 = Some BOTTOM_RIGHT"
  by (simp add: eval_simps)

text \<open>
  C4. The claim: every neighbour offset of a position's classification leads to a
  position of the grid, so the counting loop never reads outside the buffer. On a 3 by 3
  grid the position (2, 1) is classified \<open>RIGHT\<close>, whose fourth offset pair is
  (-1, 1): the neighbour is (3, 0), the read at index 9 gives \<open>undefined\<close>, and the
  count is \<open>NaN\<close>.
\<close>

theorem bottom_row_offset_leaves_grid:
  "in_grid (Grid 3 3) 2 1 \<and> determineCellType (Grid 3 3) 2 1 = Some RIGHT \<and>
   js_index (cellValues (cellLookup RIGHT)) 6 = Some (- 1) \<and>
   js_index (cellValues (cellLookup RIGHT)) 7 = Some 1 \<and>
   \<not> in_grid (Grid 3 3) (2 + 1) (1 + - 1) \<and>
   cells (Grid 3 3) ((2 + 1) * 3 + (1 + - 1)) = None \<and>
   calcLivingNeighbors (Grid 3 3) 2 1 = Inr NaN"
  by (simp add: eval_simps)

subsection \<open>The update\<close>

text \<open>
  C1. The claim: \<open>update\<close> writes every position of the grid by the rule of the Game
  of Life applied to the current buffer, so a live cell with fewer than two live
  neighbours dies. On a 3 by 3 grid whose only live cell is (2, 1), that cell has no live
  neighbour and is still live after \<open>update\<close>: its count is \<open>NaN\<close>, which is
  neither below 2 nor above 3.
\<close>

theorem isolated_bottom_cell_survives:
  "map (cells (setCell (Grid 3 3) 2 1 LIVE_CELL)) [0, 1, 2, 3, 4, 5, 6, 7, 8] =
     [Some DEAD_CELL, Some DEAD_CELL, Some DEAD_CELL,
      Some DEAD_CELL, Some DEAD_CELL, Some DEAD_CELL,
      Some DEAD_CELL, Some LIVE_CELL, Some DEAD_CELL] \<and>
   (case update (setCell (Grid 3 3) 2 1 LIVE_CELL) of
      Inl e \<Rightarrow> False
    | Inr g \<Rightarrow> cells g (2 * 3 + 1) = Some LIVE_CELL)"
  by (simp add: eval_simps)




text \<open>
  C9. Every element of the current and of the next buffer is \<open>DEAD_CELL\<close> or
  \<open>LIVE_CELL\<close>: a fresh grid holds \<open>DEAD_CELL\<close> only, \<open>setCell\<close> with one of
  the two states keeps the property, and \<open>update\<close> completes and keeps it.
\<close>

theorem cells_stay_binary:
  "(0 < w \<and> 0 < h \<longrightarrow>
      binary_grid (Grid w h) \<and>
      (\<forall>k v. cells (Grid w h) k = Some v \<or> next_cells (Grid w h) k = Some v \<longrightarrow> v = DEAD_CELL)) \<and>
   (binary_grid g \<and> (v = DEAD_CELL \<or> v = LIVE_CELL) \<longrightarrow> binary_grid (setCell g row col v)) \<and>
   (constructed g \<and> binary_grid g \<longrightarrow> (\<exists>g'. update g = Inr g' \<and> binary_grid g'))"
  using binary_Grid [of w h] all_dead_Grid [of w h] binary_setCell [of g v row col]
    binary_update [of g]
  by blast

theorem cells_stay_binary_witness:
  "binary_grid (Grid 2 2) \<and>
   binary_grid (setCell (Grid 2 2) 0 1 LIVE_CELL) \<and>
   (\<exists>g'. update (setCell (Grid 2 2) 0 1 LIVE_CELL) = Inr g' \<and> binary_grid g')"
proof -
  let ?g = "setCell (Grid 2 2) 0 1 LIVE_CELL"
  note t = cells_stay_binary [of 2 2 "Grid 2 2" LIVE_CELL 0 1]
  have a: "binary_grid (Grid 2 2)" using t by simp
  have b: "binary_grid ?g" using t a by simp
  have c: "constructed ?g" by (simp add: constructed_setCell constructed_Grid)
  have "\<exists>g'. update ?g = Inr g' \<and> binary_grid g'"
    using cells_stay_binary [of 2 2 ?g LIVE_CELL 0 1] b c by simp
  with a b show ?thesis by simp
qed

text \<open>
  C10. The claim: after \<open>update\<close> on a grid of height \<open>h\<close> the newborn report has
  exactly the row entries 0 to \<open>h - 1\<close>, a row with no births has an empty entry, and
  the columns of an entry are strictly increasing and lie in \<open>[0, width)\<close>. On the 3
  by 3 grid on which (1,1), (1,2), (2,1) and (2,0) were set live, the bottom row is live
  in all three columns after the first \<open>update\<close> and after the second, so the second
  has no birth in row 2; its report for row 2 is the column 2, because \<open>getCell\<close>
  gives -1 for the bottom-right cell and the pass takes it for dead.
\<close>

theorem stale_corner_reported_newborn:
  "(case update (setCell (setCell (setCell (setCell (Grid 3 3) 1 1 LIVE_CELL) 1 2 LIVE_CELL)
                    2 1 LIVE_CELL) 2 0 LIVE_CELL) of
      Inl e \<Rightarrow> False
    | Inr g1 \<Rightarrow>
        map (cells g1) [6, 7, 8] = [Some LIVE_CELL, Some LIVE_CELL, Some LIVE_CELL] \<and>
        (case update g1 of
           Inl e \<Rightarrow> False
         | Inr g2 \<Rightarrow>
             map (cells g2) [6, 7, 8] = [Some LIVE_CELL, Some LIVE_CELL, Some LIVE_CELL] \<and>
             getCell g1 2 2 = Some (- 1) \<and>
             newborns g2 2 = Some [2]))"
  by (simp add: eval_simps)

text \<open>
  C6. On a grid of width and height at least 5 whose live cells are exactly (2,1), (2,2)
  and (2,3), one \<open>update\<close> gives a grid whose live cells are exactly (1,2), (2,2) and
  (3,2), and a second \<open>update\<close> gives back exactly (2,1), (2,2) and (2,3).
\<close>

theorem blinker_oscillates:
  assumes "is_grid g" and "5 \<le> width g" and "5 \<le> height g"
    and "shows_pattern g horizontal"
  shows "\<exists>g1 g2. update g = Inr g1 \<and> update g1 = Inr g2 \<and>
           width g1 = width g \<and> height g1 = height g \<and> shows_pattern g1 vertical \<and>
           width g2 = width g \<and> height g2 = height g \<and> shows_pattern g2 horizontal"
proof -
  have inv: "constructed g" "ends_at_size g"
    using is_grid_invariant [OF assms(1)] by simp_all
  obtain g1 where u1: "update g = Inr g1"
    by (simp add: update_result [OF inv(1)])
  have p1: "shows_pattern g1 vertical"
    by (rule update_pattern [OF inv(1) u1]) (rule blinker_first [OF inv assms(4,2,3)])
  have inv1: "constructed g1" "ends_at_size g1"
    using is_grid_invariant [OF is_grid.step [OF assms(1) u1]] by simp_all
  have s1: "width g1 = width g" "height g1 = height g"
    using u1 by (auto simp add: update_result [OF inv(1)])
  have d1: "5 \<le> width g1" "5 \<le> height g1"
    using s1 assms(2,3) by simp_all
  obtain g2 where u2: "update g1 = Inr g2"
    by (simp add: update_result [OF inv1(1)])
  have p2: "shows_pattern g2 horizontal"
    by (rule update_pattern [OF inv1(1) u2]) (rule blinker_second [OF inv1 p1 d1])
  have s2: "width g2 = width g" "height g2 = height g"
    using u2 s1 by (auto simp add: update_result [OF inv1(1)])
  show ?thesis using u1 p1 u2 p2 s1 s2 by blast
qed

theorem blinker_oscillates_witness:
  "is_grid (blinker 5 5) \<and> width (blinker 5 5) = 5 \<and> height (blinker 5 5) = 5 \<and>
   shows_pattern (blinker 5 5) horizontal \<and>
   (\<exists>g1 g2. update (blinker 5 5) = Inr g1 \<and> update g1 = Inr g2 \<and>
      width g1 = 5 \<and> height g1 = 5 \<and> shows_pattern g1 vertical \<and>
      width g2 = 5 \<and> height g2 = 5 \<and> shows_pattern g2 horizontal)"
proof -
  have g: "is_grid (blinker 5 5)"
    unfolding blinker_def by (intro is_grid.set_cell is_grid.construct) simp_all
  have w: "width (blinker 5 5) = 5" "height (blinker 5 5) = 5"
    by (simp_all add: blinker_def setCell_fields Grid_fields)
  have d: "5 \<le> width (blinker 5 5)" "5 \<le> height (blinker 5 5)"
    using w by simp_all
  show ?thesis
    using blinker_oscillates [OF g d blinker_pattern] g w blinker_pattern by simp
qed

end
